theory Spec2Isabelle
  imports Complex_Main
begin

section \<open>Numbers and strings of the JavaScript sources\<close>

text \<open>
  The viseme servers exist in three revisions: the first heuristic server
  (\<^verbatim>\<open>src/unnamed/part_000\<close>), the patched server with a forced-aligner client
  (\<^verbatim>\<open>src/server/server_backup.js\<close>) and the enhanced server
  (\<^verbatim>\<open>src/unnamed/part_001\<close>). Where the first server and the patched server
  both define a function, the first server's copy carries the suffix \<open>_orig\<close>.

  JavaScript numbers are modelled as exact reals: times are seconds, and binary rounding
  is not modelled. \<^verbatim>\<open>Math.random()\<close> is a parameter, the stream of draws \<open>rnd\<close>, each
  draw in \<open>[0, 1)\<close>. Strings are modelled over ASCII: case mapping and the whitespace
  class are those of the ASCII characters, and text beyond ASCII is outside the model.
\<close>

definition toFixed3 :: "real \<Rightarrow> real" where
  \<comment> \<open>\<^verbatim>\<open>Number(x.toFixed(3))\<close>: the nearest multiple of 0.001, ties away from zero;
      from \<open>10^21\<close> on \<^verbatim>\<open>toFixed\<close> prints the number itself.\<close>
  "toFixed3 x =
     (if 10 ^ 21 \<le> \<bar>x\<bar> then x
      else if x < 0 then - (of_int \<lfloor>- x * 1000 + 1 / 2\<rfloor> / 1000)
      else of_int \<lfloor>x * 1000 + 1 / 2\<rfloor> / 1000)"

definition orElse :: "real \<Rightarrow> real \<Rightarrow> real" where
  \<comment> \<open>\<^verbatim>\<open>x || d\<close> on numbers: zero is falsy.\<close>
  "orElse x d = (if x = 0 then d else x)"

definition asciiUpper :: string where
  "asciiUpper = ''ABCDEFGHIJKLMNOPQRSTUVWXYZ''"

definition asciiLower :: string where
  "asciiLower = ''abcdefghijklmnopqrstuvwxyz''"

definition digits :: string where
  "digits = ''0123456789''"

definition toLowerChar :: "char \<Rightarrow> char" where
  "toLowerChar c = (case map_of (zip asciiUpper asciiLower) c of Some l \<Rightarrow> l | None \<Rightarrow> c)"

definition toUpperChar :: "char \<Rightarrow> char" where
  "toUpperChar c = (case map_of (zip asciiLower asciiUpper) c of Some u \<Rightarrow> u | None \<Rightarrow> c)"

definition toLowerCase :: "string \<Rightarrow> string" where
  "toLowerCase s = map toLowerChar s"

definition toUpperCase :: "string \<Rightarrow> string" where
  "toUpperCase s = map toUpperChar s"

primrec strIncludes :: "string \<Rightarrow> string \<Rightarrow> bool" where
  \<comment> \<open>\<^verbatim>\<open>s.includes(t)\<close>: \<open>t\<close> occurs in \<open>s\<close>; the empty string occurs in every string.\<close>
  "strIncludes [] t = (t = [])"
| "strIncludes (c # s) t = (take (length t) (c # s) = t \<or> strIncludes s t)"

definition charAt :: "string \<Rightarrow> nat \<Rightarrow> string" where
  \<comment> \<open>\<^verbatim>\<open>text[i] || ""\<close> and \<^verbatim>\<open>text.charAt(i)\<close>: empty past the end.\<close>
  "charAt text i = (if i < length text then [text ! i] else [])"

definition isSpace :: "char \<Rightarrow> bool" where
  \<comment> \<open>the class \<^verbatim>\<open>\s\<close> of the ASCII characters: tab, line feed, vertical tab, form
      feed, carriage return and the blank\<close>
  "isSpace c = (c \<in> set [CHR 0x09, CHR 0x0A, CHR 0x0B, CHR 0x0C, CHR 0x0D, CHR 0x20])"

function splitFrom :: "string \<Rightarrow> string \<Rightarrow> string list" where
  "splitFrom cur [] = [cur]"
| "splitFrom cur (c # cs) =
     (if isSpace c then cur # splitFrom [] (dropWhile isSpace cs)
      else splitFrom (cur @ [c]) cs)"
  by pat_completeness auto
termination
  by (relation "measure (\<lambda>(cur, cs). length cs)")
     (auto simp: length_dropWhile_le less_Suc_eq_le)

definition splitWhitespace :: "string \<Rightarrow> string list" where
  \<comment> \<open>\<^verbatim>\<open>text.split(/\s+/)\<close>: a leading or trailing run of whitespace leaves an empty
      word, and the empty text is the one empty word.\<close>
  "splitWhitespace text = splitFrom [] text"

section \<open>Segments\<close>

text \<open>
  A phoneme segment as the enhanced client builds it: every segment carries a
  confidence. A viseme segment carries one on the aligned path only.
\<close>

record phone =
  phoneme :: string
  ph_start :: real
  ph_end :: real
  ph_confidence :: real

record visemeSeg =
  viseme :: string
  vs_start :: real
  vs_end :: real
  vs_confidence :: "real option"

definition setLastEnd :: "visemeSeg list \<Rightarrow> real \<Rightarrow> visemeSeg list" where
  \<comment> \<open>\<^verbatim>\<open>timeline[timeline.length - 1].end = e\<close> on a non-empty timeline\<close>
  "setLastEnd timeline e =
     (if timeline = [] then [] else butlast timeline @ [(last timeline)\<lparr>vs_end := e\<rparr>])"

definition pushIfNew :: "string list \<Rightarrow> string \<Rightarrow> string list" where
  \<comment> \<open>\<^verbatim>\<open>if (!seq.length || seq[seq.length - 1] !== v) seq.push(v)\<close>\<close>
  "pushIfNew seq v = (if seq = [] \<or> last seq \<noteq> v then seq @ [v] else seq)"

section \<open>The enhanced server (part_001): smoothing of the phoneme timeline\<close>

definition mergeable :: "real \<Rightarrow> phone \<Rightarrow> phone \<Rightarrow> bool" where
  "mergeable mergeThreshold current nxt =
     (phoneme current = phoneme nxt \<and> ph_start nxt - ph_end current < mergeThreshold)"

definition mergeInto :: "phone \<Rightarrow> phone \<Rightarrow> phone" where
  "mergeInto current nxt =
     current\<lparr>ph_end := ph_end nxt,
       ph_confidence :=
         max (orElse (ph_confidence current) 0.5) (orElse (ph_confidence nxt) 0.5)\<rparr>"

fun smoothLoop :: "real \<Rightarrow> phone list \<Rightarrow> phone \<Rightarrow> phone list \<Rightarrow> phone list" where
  "smoothLoop mergeThreshold smoothed current [] = smoothed @ [current]"
| "smoothLoop mergeThreshold smoothed current (nxt # rest) =
     (if mergeable mergeThreshold current nxt
      then smoothLoop mergeThreshold smoothed (mergeInto current nxt) rest
      else smoothLoop mergeThreshold (smoothed @ [current]) nxt rest)"

definition smoothWith :: "real \<Rightarrow> phone list \<Rightarrow> phone list" where
  \<comment> \<open>\<^verbatim>\<open>smoothPhonemeTimeline(phones, mergeThreshold)\<close>\<close>
  "smoothWith mergeThreshold phones =
     (case phones of [] \<Rightarrow> [] | p # ps \<Rightarrow> smoothLoop mergeThreshold [] p ps)"

definition smoothPhonemeTimeline :: "phone list \<Rightarrow> phone list" where
  \<comment> \<open>the call of the chat handler: the threshold takes its default, 0.03\<close>
  "smoothPhonemeTimeline phones = smoothWith 0.03 phones"

fun settled :: "real \<Rightarrow> phone list \<Rightarrow> bool" where
  \<comment> \<open>no neighbours that the loop would merge\<close>
  "settled thr (a # b # rest) = (\<not> mergeable thr a b \<and> settled thr (b # rest))"
| "settled thr _ = True"

section \<open>The enhanced server (part_001): phonemes to visemes\<close>

definition PHONEME_TO_VISEME :: "(string \<times> string) list" where
  "PHONEME_TO_VISEME =
     [(''SIL'', ''rest''), (''SPN'', ''rest''), (''CLOSURE'', ''rest''),
      (''AA'', ''A''), (''AE'', ''A''), (''AH'', ''A''), (''AO'', ''O''), (''AW'', ''O''),
      (''AY'', ''A''), (''EH'', ''E''), (''ER'', ''A''), (''EY'', ''E''),
      (''IY'', ''E''), (''IH'', ''E''), (''Y'', ''E''),
      (''OW'', ''O''), (''UH'', ''O''), (''UW'', ''O''),
      (''B'', ''M''), (''P'', ''M''), (''M'', ''M''), (''EM'', ''M''),
      (''F'', ''FV''), (''V'', ''FV''),
      (''L'', ''L''), (''EL'', ''L''),
      (''S'', ''E''), (''Z'', ''E''), (''SH'', ''E''), (''ZH'', ''E''),
      (''CH'', ''E''), (''JH'', ''E''),
      (''TH'', ''E''), (''DH'', ''E''),
      (''N'', ''M''), (''NG'', ''M''), (''EN'', ''M''),
      (''T'', ''M''), (''D'', ''M''), (''K'', ''A''), (''G'', ''A''),
      (''R'', ''O''), (''W'', ''O''), (''WH'', ''O''),
      (''DEFAULT'', ''A'')]"

definition visemeOf :: "string \<Rightarrow> string" where
  \<comment> \<open>\<^verbatim>\<open>PHONEME_TO_VISEME[ph] || PHONEME_TO_VISEME["DEFAULT"]\<close>, and
      \<^verbatim>\<open>PHONEME_TO_VISEME[ph] || "A"\<close>: the same value, the table's own entries\<close>
  "visemeOf ph = (case map_of PHONEME_TO_VISEME ph of Some v \<Rightarrow> v | None \<Rightarrow> ''A'')"

definition sandwiched :: "phone list \<Rightarrow> nat \<Rightarrow> bool" where
  \<comment> \<open>the \<^verbatim>\<open>continue\<close> of the loop: a phoneme under 50 ms, neither first nor last,
      between two phonemes of one viseme\<close>
  "sandwiched phones i =
     (ph_end (phones ! i) - ph_start (phones ! i) < 0.05 \<and> 0 < i \<and> i + 1 < length phones \<and>
      visemeOf (phoneme (phones ! (i - 1))) = visemeOf (phoneme (phones ! (i + 1))))"

definition visemeStep :: "phone list \<Rightarrow> visemeSeg list \<Rightarrow> nat \<Rightarrow> visemeSeg list" where
  "visemeStep phones visemes i =
     (if sandwiched phones i then visemes
      else visemes @
        [\<lparr>viseme = visemeOf (phoneme (phones ! i)), vs_start = ph_start (phones ! i),
          vs_end = ph_end (phones ! i),
          vs_confidence = Some (orElse (ph_confidence (phones ! i)) 0.5)\<rparr>])"

definition phonemesToVisemesEnhanced :: "phone list \<Rightarrow> visemeSeg list" where
  "phonemesToVisemesEnhanced phones =
     (let initial =
            (if phones \<noteq> [] \<and> 0 < ph_start (hd phones)
             then [\<lparr>viseme = ''rest'', vs_start = 0, vs_end = ph_start (hd phones),
                    vs_confidence = Some 1\<rparr>]
             else []);
          visemes = foldl (visemeStep phones) initial [0..<length phones]
      in if visemes \<noteq> [] \<and> vs_end (last visemes) < ph_end (last phones)
         then visemes @
           [\<lparr>viseme = ''rest'', vs_start = vs_end (last visemes), vs_end = ph_end (last phones),
             vs_confidence = Some 1\<rparr>]
         else visemes)"

section \<open>The enhanced server (part_001): the forced-alignment client\<close>

text \<open>
  The aligner's answer is modelled at the types of its schema: every field is absent
  (\<open>None\<close>) or holds a value of the type the client reads it at. A word's
  \<^verbatim>\<open>alignedWord\<close> is only tested for truthiness.
\<close>

record gentlePhone =
  gp_phone :: "string option"
  gp_start :: "real option"
  gp_duration :: "real option"
  gp_score :: "real option"

record gentleWord =
  gw_case :: "string option"
  gw_alignedWord :: "string option"
  gw_phones :: "gentlePhone list option"
  gw_start :: "real option"
  gw_end :: "real option"
  gw_word :: "string option"

datatype body = BodyUnreadable | Body "gentleWord list option"
  \<comment> \<open>\<^verbatim>\<open>await res.json()\<close> throws, or yields a value whose \<^verbatim>\<open>words\<close> is an array
      (\<open>Some\<close>) or is not (\<open>None\<close>)\<close>

datatype fetched = Rejected | Response bool body
  \<comment> \<open>the request fails, or answers with \<^verbatim>\<open>res.ok\<close> and a body\<close>

record alignerEnv =
  wavExists :: bool
  settlesAfterMs :: "nat option"
  outcome :: fetched

datatype failure = Exception

definition alignerTimeoutMs :: nat where
  "alignerTimeoutMs = 10000"

definition timedOut :: "alignerEnv \<Rightarrow> bool" where
  \<comment> \<open>the request never settles by itself, or not before the timer fires\<close>
  "timedOut env =
     (case settlesAfterMs env of None \<Rightarrow> True | Some t \<Rightarrow> alignerTimeoutMs \<le> t)"

definition awaitFetch :: "alignerEnv \<Rightarrow> failure + (bool \<times> body)" where
  \<comment> \<open>the request carries the signal of an \<^verbatim>\<open>AbortController\<close> that a timer aborts
      after \<open>alignerTimeoutMs\<close>: a request still pending then is rejected\<close>
  "awaitFetch env =
     (if timedOut env then Inl Exception
      else (case outcome env of Rejected \<Rightarrow> Inl Exception
            | Response ok b \<Rightarrow> Inr (ok, b)))"

definition truthy :: "string option \<Rightarrow> bool" where
  \<comment> \<open>a string field is truthy when present and not empty\<close>
  "truthy s = (s \<noteq> None \<and> s \<noteq> Some [])"

definition strOf :: "string option \<Rightarrow> string" where
  "strOf s = (case s of Some t \<Rightarrow> t | None \<Rightarrow> [])"

definition guessPhonemeFromWord :: "string \<Rightarrow> string" where
  "guessPhonemeFromWord word =
     (let firstChar = toUpperCase (charAt word 0) in
      if strIncludes ''AEIOU'' firstChar then ''AA''
      else if strIncludes ''BPM'' firstChar then ''M''
      else if strIncludes ''FVCK'' firstChar then ''FV''
      else if strIncludes ''SZ'' firstChar then ''S''
      else if strIncludes ''L'' firstChar then ''L''
      else ''AA'')"

definition phoneStep ::
  "gentleWord \<Rightarrow> phone list \<times> real \<Rightarrow> gentlePhone \<Rightarrow> phone list \<times> real" where
  "phoneStep w st p =
     (case st of (phones, currentTime) \<Rightarrow>
        if \<not> truthy (gp_phone p) then (phones, currentTime)
        else
          let ph = toUpperCase (filter (\<lambda>c. c \<notin> set digits) (strOf (gp_phone p)));
              start = (case gp_start p of Some s \<Rightarrow> s
                       | None \<Rightarrow> (case gw_start w of Some s \<Rightarrow> s | None \<Rightarrow> currentTime));
              dur = (case gp_duration p of Some d \<Rightarrow> d | None \<Rightarrow> 0.05);
              end = start + dur;
              confidence = (case gp_score p of Some s \<Rightarrow> orElse s 1 | None \<Rightarrow> 1)
          in (phones @
                [\<lparr>phoneme = ph, ph_start = toFixed3 start, ph_end = toFixed3 end,
                  ph_confidence = confidence\<rparr>],
              end))"

definition notAligned :: "gentleWord \<Rightarrow> bool" where
  \<comment> \<open>\<^verbatim>\<open>w.case === "not-found-in-audio" || !w.alignedWord\<close>\<close>
  "notAligned w = (gw_case w = Some ''not-found-in-audio'' \<or> \<not> truthy (gw_alignedWord w))"

definition wordStep :: "phone list \<times> real \<Rightarrow> gentleWord \<Rightarrow> phone list \<times> real" where
  "wordStep st w =
     (case st of (phones, currentTime) \<Rightarrow>
        if notAligned w then
          (phones @
             [\<lparr>phoneme = ''SIL'', ph_start = currentTime, ph_end = currentTime + 0.1,
               ph_confidence = 0\<rparr>],
           currentTime + 0.1)
        else
          (case gw_phones w of
             Some ps \<Rightarrow> foldl (phoneStep w) (phones, currentTime) ps
           | None \<Rightarrow>
               let start = (case gw_start w of Some s \<Rightarrow> orElse s currentTime
                            | None \<Rightarrow> currentTime);
                   end = (case gw_end w of Some e \<Rightarrow> orElse e (start + 0.1)
                          | None \<Rightarrow> start + 0.1);
                   wordPhoneme = (if truthy (gw_word w) then guessPhonemeFromWord (strOf (gw_word w))
                                  else ''SIL'')
               in (phones @
                     [\<lparr>phoneme = wordPhoneme, ph_start = toFixed3 start, ph_end = toFixed3 end,
                       ph_confidence = 0.5\<rparr>],
                   end)))"

definition normalizeWords :: "gentleWord list option \<Rightarrow> phone list" where
  \<comment> \<open>the loop over \<^verbatim>\<open>json.words\<close>, the time cursor starting at 0\<close>
  "normalizeWords ws =
     (case ws of None \<Rightarrow> [] | Some words \<Rightarrow> fst (foldl wordStep ([], 0) words))"


definition alignerBody :: "alignerEnv \<Rightarrow> failure + phone list option" where
  \<comment> \<open>the body of the \<^verbatim>\<open>try\<close> block\<close>
  "alignerBody env =
     (if \<not> wavExists env then Inr None
      else
        (case awaitFetch env of
           Inl e \<Rightarrow> Inl e
         | Inr (ok, b) \<Rightarrow>
             if \<not> ok then Inr None
             else
               (case b of
                  BodyUnreadable \<Rightarrow> Inl Exception
                | Body ws \<Rightarrow>
                    let phones = normalizeWords ws
                    in Inr (if 0 < length phones then Some phones else None))))"

definition runForcedAligner :: "alignerEnv \<Rightarrow> phone list option" where
  \<comment> \<open>\<^verbatim>\<open>catch (err) { ...; return null; }\<close>\<close>
  "runForcedAligner env = (case alignerBody env of Inl e \<Rightarrow> None | Inr r \<Rightarrow> r)"

section \<open>The enhanced server (part_001): the fallback timeline and the chat handler\<close>

definition charToVisemeEnhanced :: "string \<Rightarrow> string" where
  "charToVisemeEnhanced c =
     (let ch = toLowerCase c in
      if strIncludes ''aeiou'' ch then ''A''
      else if strIncludes ''bp'' ch then ''M''
      else if strIncludes ''m'' ch then ''M''
      else if strIncludes ''fv'' ch then ''FV''
      else if strIncludes ''l'' ch then ''L''
      else if strIncludes ''sz'' ch then ''E''
      else if strIncludes ''ckg'' ch then ''A''
      else if strIncludes ''o'' ch then ''O''
      else if strIncludes ''w'' ch then ''O''
      else if strIncludes ''tdnr'' ch then ''M''
      else if strIncludes ''h'' ch then ''A''
      else ''rest'')"

definition charStep ::
  "real \<Rightarrow> real \<Rightarrow> visemeSeg list \<times> real \<Rightarrow> char \<Rightarrow> visemeSeg list \<times> real" where
  "charStep wordEnd charDuration st c =
     (case st of (visemeSequence, charTime) \<Rightarrow>
        let v = charToVisemeEnhanced [c] in
        (if visemeSequence = [] \<or> viseme (last visemeSequence) \<noteq> v
         then visemeSequence @
           [\<lparr>viseme = v, vs_start = toFixed3 charTime,
             vs_end = toFixed3 (min wordEnd (charTime + charDuration)), vs_confidence = None\<rparr>]
         else visemeSequence,
         charTime + charDuration))"

definition fallbackWordStep ::
  "string list \<Rightarrow> real \<Rightarrow> visemeSeg list \<times> real \<Rightarrow> string \<Rightarrow> visemeSeg list \<times> real" where
  "fallbackWordStep words wordDuration st word =
     (case st of (visemeSequence, timeCursor) \<Rightarrow>
        let wordStart = timeCursor;
            wordEnd = timeCursor + wordDuration;
            charDuration = wordDuration / real (max (length word) 1)
        in (case foldl (charStep wordEnd charDuration) (visemeSequence, wordStart) word of
              (visemeSequence', charTime) \<Rightarrow>
                if word \<noteq> last words
                then (visemeSequence' @
                        [\<lparr>viseme = ''rest'', vs_start = charTime, vs_end = charTime + 0.05,
                          vs_confidence = None\<rparr>],
                      charTime + 0.05)
                else (visemeSequence', wordEnd)))"

definition generateFallbackVisemes :: "string \<Rightarrow> real \<Rightarrow> visemeSeg list" where
  "generateFallbackVisemes text duration =
     (let words = splitWhitespace (toLowerCase text);
          wordDuration = duration / real (max (length words) 1);
          visemeSequence = fst (foldl (fallbackWordStep words wordDuration) ([], 0) words)
      in setLastEnd visemeSequence (toFixed3 duration))"

record chatEnv =
  audioAvailable :: bool
  probedDuration :: real
  alignTmpWritten :: bool
  aligner :: alignerEnv

definition chatDuration :: "chatEnv \<Rightarrow> real" where
  \<comment> \<open>step 3: 1.0 without audio, else what \<^verbatim>\<open>getAudioDuration\<close> read from the wav
      header, here the parameter \<open>probedDuration\<close>\<close>
  "chatDuration env = (if audioAvailable env then probedDuration env else 1)"

definition chatTurn :: "string \<Rightarrow> chatEnv \<Rightarrow> visemeSeg list \<times> string" where
  \<comment> \<open>steps 4 and 5 of \<^verbatim>\<open>app.post("/chat")\<close>: the \<^verbatim>\<open>visemes\<close> and the
      \<^verbatim>\<open>alignmentSource\<close> of the response. Writing the temporary wav file may throw,
      which the handler catches.\<close>
  "chatTurn reply env =
     (let fallback = (generateFallbackVisemes reply (chatDuration env), ''fallback'');
          (visemeTimeline, alignmentSource) =
            (if audioAvailable env then
               (if alignTmpWritten env then
                  (case runForcedAligner (aligner env) of
                     Some phones \<Rightarrow>
                       if 0 < length phones
                       then (phonemesToVisemesEnhanced (smoothPhonemeTimeline phones), ''gentle'')
                       else fallback
                   | None \<Rightarrow> fallback)
                else fallback)
             else fallback)
      in (if length visemeTimeline = 0
          then [\<lparr>viseme = ''rest'', vs_start = 0, vs_end = max (chatDuration env) 0.1,
                  vs_confidence = None\<rparr>]
          else visemeTimeline,
          alignmentSource))"

section \<open>The patched server (server_backup.js): heuristic phonemizer and timeline\<close>

definition charToPhonemePair :: "string \<Rightarrow> nat \<Rightarrow> string \<times> nat" where
  "charToPhonemePair text i =
     (let pair = toLowerCase (take 2 (drop i text)) in
      if pair = ''th'' then (''TH'', 2)
      else if pair = ''sh'' then (''SH'', 2)
      else if pair = ''ch'' then (''CH'', 2)
      else if pair = ''ph'' then (''F'', 2)
      else if pair = ''oo'' then (''UW'', 2)
      else if pair = ''ee'' then (''IY'', 2)
      else if pair = ''ai'' then (''AY'', 2)
      else if pair = ''ou'' then (''OW'', 2)
      else
        let ch = toLowerCase (charAt text i) in
        if strIncludes ''a'' ch then (''AA'', 1)
        else if strIncludes ''e'' ch then (''EH'', 1)
        else if strIncludes ''i'' ch then (''IY'', 1)
        else if strIncludes ''o'' ch then (''OW'', 1)
        else if strIncludes ''u'' ch then (''UH'', 1)
        else if strIncludes ''pbm'' ch then (''M'', 1)
        else if strIncludes ''fv'' ch then (''FV'', 1)
        else if strIncludes ''l'' ch then (''L'', 1)
        else if strIncludes ''sz'' ch then (''S'', 1)
        else if strIncludes ''tdnrkg'' ch then (''T'', 1)
        else (''AA'', 1))"

definition phonemeToViseme :: "string \<Rightarrow> string" where
  "phonemeToViseme ph =
     (if ph \<in> set [''AA'', ''AE'', ''AH'', ''AY''] then ''A''
      else if ph \<in> set [''EH'', ''EE'', ''IY'', ''IH'', ''S'', ''Z'', ''SH'', ''CH'', ''TH''] then ''E''
      else if ph \<in> set [''OW'', ''OO'', ''UH'', ''UW''] then ''O''
      else if ph \<in> set [''M'', ''P'', ''B''] then ''M''
      else if ph \<in> set [''F'', ''V'', ''FV''] then ''FV''
      else if ph \<in> set [''L''] then ''L''
      else ''A'')"

partial_function (option) visemeScan :: "string \<Rightarrow> nat \<Rightarrow> string list \<Rightarrow> string list option"
  where
  \<comment> \<open>the \<^verbatim>\<open>while (i < text.length)\<close> loop; not returning is \<open>None\<close>\<close>
  "visemeScan text i seq =
     (if i < length text
      then visemeScan text (i + snd (charToPhonemePair text i))
             (pushIfNew seq (phonemeToViseme (fst (charToPhonemePair text i))))
      else Some seq)"

declare visemeScan.simps [code]

definition textToVisemeSequence :: "string \<Rightarrow> string list option" where
  "textToVisemeSequence text = visemeScan text 0 []"

fun timelineLoop ::
  "(real \<Rightarrow> real) \<Rightarrow> (nat \<Rightarrow> real) \<Rightarrow> real \<Rightarrow> nat \<Rightarrow> real \<Rightarrow> string list \<Rightarrow> visemeSeg list"
  where
  \<comment> \<open>the \<^verbatim>\<open>for\<close> loop shared by both revisions of \<^verbatim>\<open>buildVisemeTimeline\<close>:
      \<open>holdOf\<close> turns the \<open>i\<close>-th random draw into the hold of segment \<open>i\<close>\<close>
  "timelineLoop holdOf rnd duration i cursor [] = []"
| "timelineLoop holdOf rnd duration i cursor (v # vs) =
     (let hold = holdOf (rnd i);
          start = cursor;
          end = min duration (cursor + hold)
      in \<lparr>viseme = v, vs_start = toFixed3 start, vs_end = toFixed3 end, vs_confidence = None\<rparr>
           # timelineLoop holdOf rnd duration (i + 1) end vs)"

definition buildVisemeTimeline :: "(nat \<Rightarrow> real) \<Rightarrow> string list \<Rightarrow> real \<Rightarrow> visemeSeg list" where
  \<comment> \<open>server_backup.js: \<^verbatim>\<open>hold = avg * (0.9 + Math.random() * 0.3)\<close>\<close>
  "buildVisemeTimeline rnd visemes duration =
     (if length visemes = 0 then []
      else
        let avg = duration / real (length visemes)
        in setLastEnd (timelineLoop (\<lambda>r. avg * (0.9 + r * 0.3)) rnd duration 0 0 visemes)
             (toFixed3 duration))"

section \<open>The first server (part_000): character visemes and the timeline with a floor\<close>

definition charToViseme :: "string \<Rightarrow> string" where
  "charToViseme c =
     (let ch = toLowerCase c in
      if strIncludes ''aeiou'' ch then ''A''
      else if strIncludes ''bdpv'' ch then ''M''
      else if strIncludes ''fvw'' ch then ''FV''
      else if strIncludes ''l'' ch then ''L''
      else if strIncludes ''szcjx'' ch then ''E''
      else if strIncludes ''o'' ch then ''O''
      else ''A'')"

definition isWordChar :: "char \<Rightarrow> bool" where
  \<comment> \<open>the test \<^verbatim>\<open>/[\w']/i\<close>: a letter, a digit, the underscore or the apostrophe\<close>
  "isWordChar c = (c \<in> set (asciiUpper @ asciiLower @ digits @ [CHR ''_'', CHR 0x27]))"

definition textToVisemeSequence_orig :: "string \<Rightarrow> string list" where
  "textToVisemeSequence_orig text =
     foldl (\<lambda>seq ch. if \<not> isWordChar ch then seq else pushIfNew seq (charToViseme [ch])) [] text"

definition buildVisemeTimeline_orig ::
  "(nat \<Rightarrow> real) \<Rightarrow> string list \<Rightarrow> real \<Rightarrow> visemeSeg list" where
  \<comment> \<open>part_000: \<^verbatim>\<open>dur = Math.max(0.04, base * (0.85 + Math.random() * 0.3))\<close>\<close>
  "buildVisemeTimeline_orig rnd visemeSeq durationSeconds =
     (if length visemeSeq = 0 then []
      else
        let base = durationSeconds / real (length visemeSeq)
        in setLastEnd
             (timelineLoop (\<lambda>r. max 0.04 (base * (0.85 + r * 0.3))) rnd durationSeconds 0 0
                visemeSeq)
             (toFixed3 durationSeconds))"


definition durationSum :: "visemeSeg list \<Rightarrow> real" where
  "durationSum timeline = sum_list (map (\<lambda>s. vs_end s - vs_start s) timeline)"

section \<open>Smoothing: the merge rule and idempotence\<close>

lemma smoothLoop_acc:
  "smoothLoop thr (acc @ sm) cur ps = acc @ smoothLoop thr sm cur ps"
  by (induction ps arbitrary: sm cur) auto

lemma smoothLoop_acc0: "smoothLoop thr sm cur ps = sm @ smoothLoop thr [] cur ps"
  using smoothLoop_acc [of thr sm "[]" cur ps] by simp

lemma smoothWith_Cons2:
  "smoothWith thr (a # b # rest) =
     (if mergeable thr a b then smoothWith thr (mergeInto a b # rest)
      else a # smoothWith thr (b # rest))"
  using smoothLoop_acc0 [of thr "[a]" b rest] by (simp add: smoothWith_def)


lemma smoothWith_hd:
  "smoothWith thr (a # rest) \<noteq> [] \<and>
   phoneme (hd (smoothWith thr (a # rest))) = phoneme a \<and>
   ph_start (hd (smoothWith thr (a # rest))) = ph_start a"
proof (induction rest arbitrary: a)
  case Nil
  then show ?case by (simp add: smoothWith_def)
next
  case (Cons b rest)
  show ?case using Cons [of "mergeInto a b"] Cons [of b]
    by (simp add: smoothWith_Cons2 mergeInto_def)
qed

lemma settled_smoothWith: "settled thr (smoothWith thr xs)"
proof (induction "length xs" arbitrary: xs rule: less_induct)
  case less
  show ?case
  proof (cases xs)
    case Nil
    then show ?thesis by (simp add: smoothWith_def)
  next
    case (Cons a rest)
    note xs = Cons
    show ?thesis
    proof (cases rest)
      case Nil
      then show ?thesis using xs by (simp add: smoothWith_def)
    next
      case (Cons b rest')
      show ?thesis
      proof (cases "mergeable thr a b")
        case True
        then show ?thesis using less [of "mergeInto a b # rest'"] xs Cons
          by (simp add: smoothWith_Cons2)
      next
        case False
        have s: "settled thr (smoothWith thr (b # rest'))"
          using less [of "b # rest'"] xs Cons by simp
        obtain y ys where y: "smoothWith thr (b # rest') = y # ys"
          using smoothWith_hd [of thr b rest'] by (cases "smoothWith thr (b # rest')") auto
        have "phoneme y = phoneme b" "ph_start y = ph_start b"
          using smoothWith_hd [of thr b rest'] y by auto
        then have "\<not> mergeable thr a y" using False by (simp add: mergeable_def)
        then show ?thesis using s y xs Cons False by (simp add: smoothWith_Cons2)
      qed
    qed
  qed
qed

lemma smoothWith_settled: "settled thr xs \<Longrightarrow> smoothWith thr xs = xs"
proof (induction thr xs rule: settled.induct)
  case (1 thr a b rest)
  then show ?case by (simp add: smoothWith_Cons2)
qed (simp_all add: smoothWith_def)

text \<open>
  Claim C8. The smoother is idempotent: smoothing an already smoothed phoneme timeline
  returns it unchanged, for the default threshold of the chat handler and for every
  other threshold.
\<close>

theorem smoothPhonemeTimeline_idempotent:
  "smoothPhonemeTimeline (smoothPhonemeTimeline xs) = smoothPhonemeTimeline xs \<and>
   smoothWith thr (smoothWith thr xs) = smoothWith thr xs"
  unfolding smoothPhonemeTimeline_def
  by (simp add: smoothWith_settled [OF settled_smoothWith])

theorem smoothPhonemeTimeline_idempotent_witness:
  "smoothPhonemeTimeline
     [\<lparr>phoneme = ''M'', ph_start = 0, ph_end = 0.1, ph_confidence = 0.8\<rparr>,
      \<lparr>phoneme = ''M'', ph_start = 0.11, ph_end = 0.2, ph_confidence = 0.9\<rparr>,
      \<lparr>phoneme = ''AA'', ph_start = 0.2, ph_end = 0.3, ph_confidence = 1\<rparr>] =
     [\<lparr>phoneme = ''M'', ph_start = 0, ph_end = 0.2, ph_confidence = 0.9\<rparr>,
      \<lparr>phoneme = ''AA'', ph_start = 0.2, ph_end = 0.3, ph_confidence = 1\<rparr>] \<and>
   smoothPhonemeTimeline (smoothPhonemeTimeline
     [\<lparr>phoneme = ''M'', ph_start = 0, ph_end = 0.1, ph_confidence = 0.8\<rparr>,
      \<lparr>phoneme = ''M'', ph_start = 0.11, ph_end = 0.2, ph_confidence = 0.9\<rparr>,
      \<lparr>phoneme = ''AA'', ph_start = 0.2, ph_end = 0.3, ph_confidence = 1\<rparr>]) =
     [\<lparr>phoneme = ''M'', ph_start = 0, ph_end = 0.2, ph_confidence = 0.9\<rparr>,
      \<lparr>phoneme = ''AA'', ph_start = 0.2, ph_end = 0.3, ph_confidence = 1\<rparr>]"
proof -
  let ?xs = "[\<lparr>phoneme = ''M'', ph_start = 0, ph_end = 0.1, ph_confidence = 0.8\<rparr>,
      \<lparr>phoneme = ''M'', ph_start = 0.11, ph_end = 0.2, ph_confidence = 0.9\<rparr>,
      \<lparr>phoneme = ''AA'', ph_start = 0.2, ph_end = 0.3, ph_confidence = 1\<rparr>]"
  have e: "smoothPhonemeTimeline ?xs =
     [\<lparr>phoneme = ''M'', ph_start = 0, ph_end = 0.2, ph_confidence = 0.9\<rparr>,
      \<lparr>phoneme = ''AA'', ph_start = 0.2, ph_end = 0.3, ph_confidence = 1\<rparr>]"
    by (simp add: smoothPhonemeTimeline_def smoothWith_def mergeable_def mergeInto_def
        orElse_def)
  show ?thesis
    using smoothPhonemeTimeline_idempotent [of ?xs "3 / 100"] e by simp
qed




section \<open>The heuristic phonemizers\<close>

lemma charToPhonemePair_skip:
  "snd (charToPhonemePair str i) = 1 \<or> snd (charToPhonemePair str i) = 2"
  by (simp add: charToPhonemePair_def Let_def)

lemma visemeScan_returns: "\<exists>out. visemeScan str i seq = Some out"
proof (induction "length str - i" arbitrary: i seq rule: less_induct)
  case less
  show ?case
  proof (cases "i < length str")
    case True
    let ?k = "snd (charToPhonemePair str i)"
    have "0 < ?k" using charToPhonemePair_skip [of str i] by auto
    then have "length str - (i + ?k) < length str - i" using True by arith
    from less [OF this] show ?thesis using True
      by (subst visemeScan.simps) simp
  next
    case False
    then show ?thesis by (subst visemeScan.simps) simp
  qed
qed

text \<open>
  Claim C10. At every position of every text, also past its end and at characters that
  match no rule, \<^verbatim>\<open>charToPhonemePair\<close> returns a skip of 1 or 2, so the index of the
  scan strictly increases; the scan of \<^verbatim>\<open>textToVisemeSequence\<close> therefore returns a
  sequence for every text.
\<close>

theorem textToVisemeSequence_terminates:
  "snd (charToPhonemePair str i) \<in> {1, 2} \<and>
   i < i + snd (charToPhonemePair str i) \<and>
   (\<exists>seq. visemeScan str i acc = Some seq) \<and>
   (\<exists>seq. textToVisemeSequence str = Some seq)"
  using charToPhonemePair_skip [of str i] visemeScan_returns [of str i acc]
        visemeScan_returns [of str 0 "[]"]
  by (auto simp: textToVisemeSequence_def)

theorem textToVisemeSequence_terminates_witness:
  "textToVisemeSequence ''the ship!'' = Some [''E'', ''A'', ''E'', ''M'', ''A''] \<and>
   charToPhonemePair ''the ship!'' 0 = (''TH'', 2) \<and>
   charToPhonemePair ''the ship!'' 8 = (''AA'', 1) \<and>
   charToPhonemePair ''the ship!'' 20 = (''AA'', 1)"
proof -
  have e: "textToVisemeSequence ''the ship!'' = Some [''E'', ''A'', ''E'', ''M'', ''A'']"
    by code_simp
  have p: "charToPhonemePair ''the ship!'' 0 = (''TH'', 2) \<and>
           charToPhonemePair ''the ship!'' 8 = (''AA'', 1) \<and>
           charToPhonemePair ''the ship!'' 20 = (''AA'', 1)"
    by code_simp
  show ?thesis
    using textToVisemeSequence_terminates [of "''the ship!''" 0 "[]"] e p by simp
qed

lemma skip_fold_filter:
  "foldl (\<lambda>seq ch. if \<not> isWordChar ch then seq else pushIfNew seq (charToViseme [ch])) acc str =
   foldl (\<lambda>seq ch. if \<not> isWordChar ch then seq else pushIfNew seq (charToViseme [ch])) acc
     (filter isWordChar str)"
  by (induction str arbitrary: acc) auto

text \<open>
  Claim C9, as amended. The first server's \<^verbatim>\<open>textToVisemeSequence\<close> skips every
  character other than an ASCII letter, a digit, the underscore and the apostrophe
  (the test \<^verbatim>\<open>/[\w']/\<close>): the result is that of the text with these characters
  removed, so a skipped character adds nothing and does not keep two equal visemes
  around it from collapsing. Whitespace is always skipped.
\<close>

theorem textToVisemeSequence_orig_skips:
  "textToVisemeSequence_orig str = textToVisemeSequence_orig (filter isWordChar str) \<and>
   (\<not> isWordChar c \<longrightarrow>
      textToVisemeSequence_orig (xs @ c # ys) = textToVisemeSequence_orig (xs @ ys)) \<and>
   (isSpace c \<longrightarrow> \<not> isWordChar c)"
proof -
  have 1: "textToVisemeSequence_orig t = textToVisemeSequence_orig (filter isWordChar t)" for t
    unfolding textToVisemeSequence_orig_def by (rule skip_fold_filter)
  have 2: "textToVisemeSequence_orig (xs @ c # ys) = textToVisemeSequence_orig (xs @ ys)"
    if "\<not> isWordChar c"
    using 1 [of "xs @ c # ys"] 1 [of "xs @ ys"] that by simp
  have 3: "\<not> isWordChar c" if "isSpace c"
    using that
    by (auto simp: isSpace_def isWordChar_def asciiUpper_def asciiLower_def digits_def)
  show ?thesis using 1 2 3 by blast
qed

theorem textToVisemeSequence_orig_skips_witness:
  "\<not> isWordChar CHR '','' \<and> isSpace CHR '' '' \<and>
   textToVisemeSequence_orig ''b, b'' = [''M''] \<and>
   textToVisemeSequence_orig ''bb'' = [''M'']"
proof -
  have e: "\<not> isWordChar CHR '','' \<and> \<not> isWordChar CHR '' '' \<and> isSpace CHR '' '' \<and>
           textToVisemeSequence_orig ''bb'' = [''M'']"
    by code_simp
  have a: "textToVisemeSequence_orig (''b'' @ CHR '','' # '' b'') =
           textToVisemeSequence_orig (''b'' @ '' b'')"
    using textToVisemeSequence_orig_skips [of "[]" "CHR '',''" "''b''" "'' b''"] e by blast
  have b: "textToVisemeSequence_orig (''b'' @ CHR '' '' # ''b'') =
           textToVisemeSequence_orig (''b'' @ ''b'')"
    using textToVisemeSequence_orig_skips [of "[]" "CHR '' ''" "''b''" "''b''"] e by blast
  show ?thesis using a b e by simp
qed

text \<open>
  The apostrophe is punctuation and is not skipped: between two b's it yields the viseme
  A and keeps the two M's apart. The patched server's scan skips nothing: a blank
  between two b's yields A as well.
\<close>

theorem textToVisemeSequence_skip_counterexample:
  "textToVisemeSequence_orig [CHR ''b'', CHR 0x27, CHR ''b''] = [''M'', ''A'', ''M''] \<and>
   textToVisemeSequence_orig ''bb'' = [''M''] \<and>
   textToVisemeSequence ''b b'' = Some [''M'', ''A'', ''M''] \<and>
   textToVisemeSequence ''bb'' = Some [''M'']"
  by code_simp

section \<open>Case mapping and whitespace\<close>

lemma toLowerChar_upper: "c \<in> set asciiUpper \<Longrightarrow> toLowerChar c \<in> set asciiLower"
  by (auto simp: asciiUpper_def asciiLower_def toLowerChar_def)

lemma toLowerChar_other: "c \<notin> set asciiUpper \<Longrightarrow> toLowerChar c = c"
proof -
  assume "c \<notin> set asciiUpper"
  moreover have "length asciiUpper = length asciiLower"
    by (simp add: asciiUpper_def asciiLower_def)
  ultimately have "map_of (zip asciiUpper asciiLower) c = None"
    by (simp add: map_of_zip_is_None)
  then show ?thesis by (simp add: toLowerChar_def)
qed

lemma isSpace_not_letter: "isSpace c \<Longrightarrow> c \<notin> set asciiUpper \<and> c \<notin> set asciiLower"
  by (auto simp: isSpace_def asciiUpper_def asciiLower_def)

lemma isSpace_toLowerChar: "isSpace (toLowerChar c) = isSpace c"
proof (cases "c \<in> set asciiUpper")
  case True
  then show ?thesis using toLowerChar_upper [OF True] isSpace_not_letter by blast
next
  case False
  then show ?thesis by (simp add: toLowerChar_other)
qed

section \<open>Rounding to milliseconds and the timeline loop\<close>

lemma toFixed3_zero: "toFixed3 0 = 0"
  by (simp add: toFixed3_def)

lemma toFixed3_near: "\<bar>toFixed3 x - x\<bar> \<le> 1 / 2000"
proof -
  have up: "\<bar>of_int \<lfloor>y * 1000 + 1 / 2\<rfloor> / 1000 - y\<bar> \<le> 1 / 2000" for y :: real
  proof -
    define a :: real where "a = of_int \<lfloor>y * 1000 + 1 / 2\<rfloor>"
    have "a \<le> y * 1000 + 1 / 2" "y * 1000 + 1 / 2 < a + 1"
      unfolding a_def by linarith+
    then have "\<bar>a / 1000 - y\<bar> \<le> 1 / 2000" by linarith
    then show ?thesis by (simp add: a_def)
  qed
  consider "10 ^ 21 \<le> \<bar>x\<bar>" | "\<bar>x\<bar> < 10 ^ 21" "x < 0" | "\<bar>x\<bar> < 10 ^ 21" "0 \<le> x"
    by linarith
  then show ?thesis
  proof cases
    case 1
    then show ?thesis by (simp add: toFixed3_def)
  next
    case 2
    then have "toFixed3 x = - (of_int \<lfloor>- x * 1000 + 1 / 2\<rfloor> / 1000)"
      by (simp add: toFixed3_def)
    then show ?thesis using up [of "- x"] by linarith
  next
    case 3
    then have "toFixed3 x = of_int \<lfloor>x * 1000 + 1 / 2\<rfloor> / 1000"
      by (simp add: toFixed3_def)
    then show ?thesis using up [of x] by linarith
  qed
qed


lemma setLastEnd_single: "setLastEnd [x] e = [x\<lparr>vs_end := e\<rparr>]"
  by (simp add: setLastEnd_def)

lemma setLastEnd_Cons2: "setLastEnd (x # y # ys) e = x # setLastEnd (y # ys) e"
  by (simp add: setLastEnd_def)

lemma timelineLoop_Nil_iff: "timelineLoop h rnd d i c vs = [] \<longleftrightarrow> vs = []"
  by (cases vs) (simp_all add: Let_def)

lemma durationSum_pinned:
  "vs \<noteq> [] \<Longrightarrow> durationSum (setLastEnd (timelineLoop h rnd d i c vs) e) = e - toFixed3 c"
proof (induction vs arbitrary: i c)
  case Nil
  then show ?case by simp
next
  case (Cons v vs)
  show ?case
  proof (cases vs)
    case Nil
    then show ?thesis by (simp add: Let_def setLastEnd_single durationSum_def)
  next
    case (Cons v' vs')
    have "durationSum (setLastEnd (timelineLoop h rnd d (i + 1) (min d (c + h (rnd i))) vs) e)
            = e - toFixed3 (min d (c + h (rnd i)))"
      using Cons.IH [of "i + 1" "min d (c + h (rnd i))"] Cons by simp
    then show ?thesis using Cons
      by (simp add: Let_def setLastEnd_Cons2 durationSum_def)
  qed
qed

lemma pinned_ends:
  "vs \<noteq> [] \<Longrightarrow>
   setLastEnd (timelineLoop h rnd d i c vs) e \<noteq> [] \<and>
   vs_start (hd (setLastEnd (timelineLoop h rnd d i c vs) e)) = toFixed3 c \<and>
   vs_end (last (setLastEnd (timelineLoop h rnd d i c vs) e)) = e \<and> 
   length (setLastEnd (timelineLoop h rnd d i c vs) e) = length vs \<and>
   map viseme (setLastEnd (timelineLoop h rnd d i c vs) e) = vs"
proof (induction vs arbitrary: i c)
  case Nil
  then show ?case by simp
next
  case (Cons v vs)
  show ?case
  proof (cases vs)
    case Nil
    then show ?thesis by (simp add: Let_def setLastEnd_single)
  next
    case (Cons v' vs')
    then show ?thesis
      using Cons.IH [of "i + 1" "min d (c + h (rnd i))"]
      by (simp add: Let_def setLastEnd_Cons2)
  qed
qed



text \<open>
  Claim C6, as amended. For every non-empty viseme sequence and every duration, the
  segments that \<^verbatim>\<open>buildVisemeTimeline\<close> produces (the patched server's and the first
  server's) have durations that sum to the audio duration rounded to three decimals,
  which is within half a millisecond of the audio duration.
\<close>

theorem buildVisemeTimeline_duration_sum:
  "visemes \<noteq> [] \<Longrightarrow>
   durationSum (buildVisemeTimeline rnd visemes duration) = toFixed3 duration \<and>
   durationSum (buildVisemeTimeline_orig rnd visemes duration) = toFixed3 duration \<and>
   \<bar>durationSum (buildVisemeTimeline rnd visemes duration) - duration\<bar> \<le> 1 / 2000 \<and>
   \<bar>durationSum (buildVisemeTimeline_orig rnd visemes duration) - duration\<bar> \<le> 1 / 2000"
  using toFixed3_near [of duration]
  by (simp add: buildVisemeTimeline_def buildVisemeTimeline_orig_def Let_def
      durationSum_pinned toFixed3_zero)

theorem buildVisemeTimeline_duration_sum_witness:
  "[''A'', ''E'', ''M''] \<noteq> ([] :: string list) \<and>
   buildVisemeTimeline (\<lambda>i. 1 / 2) [''A'', ''E'', ''M''] 1 =
     [\<lparr>viseme = ''A'', vs_start = 0, vs_end = 7 / 20, vs_confidence = None\<rparr>,
      \<lparr>viseme = ''E'', vs_start = 7 / 20, vs_end = 7 / 10, vs_confidence = None\<rparr>,
      \<lparr>viseme = ''M'', vs_start = 7 / 10, vs_end = 1, vs_confidence = None\<rparr>] \<and>
   durationSum (buildVisemeTimeline (\<lambda>i. 1 / 2) [''A'', ''E'', ''M''] 1) = 1"
proof -
  have e: "buildVisemeTimeline (\<lambda>i. 1 / 2) [''A'', ''E'', ''M''] 1 =
     [\<lparr>viseme = ''A'', vs_start = 0, vs_end = 7 / 20, vs_confidence = None\<rparr>,
      \<lparr>viseme = ''E'', vs_start = 7 / 20, vs_end = 7 / 10, vs_confidence = None\<rparr>,
      \<lparr>viseme = ''M'', vs_start = 7 / 10, vs_end = 1, vs_confidence = None\<rparr>]"
    by code_simp
  have r: "toFixed3 1 = 1" by (simp add: toFixed3_def)
  show ?thesis
    using buildVisemeTimeline_duration_sum [of "[''A'', ''E'', ''M'']" "\<lambda>i. 1 / 2" 1] e r
    by simp
qed

text \<open>
  The enhanced server's fallback builder collapses a repeated viseme by pushing nothing,
  which leaves a hole: for the text aab and 1.5 s of audio the two segments last 0.5 s
  each.
\<close>

theorem generateFallbackVisemes_sum_counterexample:
  "generateFallbackVisemes ''aab'' (3 / 2) =
     [\<lparr>viseme = ''A'', vs_start = 0, vs_end = 1 / 2, vs_confidence = None\<rparr>,
      \<lparr>viseme = ''M'', vs_start = 1, vs_end = 3 / 2, vs_confidence = None\<rparr>] \<and>
   durationSum (generateFallbackVisemes ''aab'' (3 / 2)) = 1"
  by code_simp




section \<open>The end points of the timelines\<close>

lemma smoothWith_last:
  "xs \<noteq> [] \<Longrightarrow> smoothWith thr xs \<noteq> [] \<and> ph_end (last (smoothWith thr xs)) = ph_end (last xs)"
proof (induction "length xs" arbitrary: xs rule: less_induct)
  case less
  from less.prems obtain a rest where xs: "xs = a # rest" by (cases xs) auto
  show ?case
  proof (cases rest)
    case Nil
    then show ?thesis using xs by (simp add: smoothWith_def)
  next
    case (Cons b rest')
    show ?thesis
    proof (cases "mergeable thr a b")
      case True
      then show ?thesis using less.hyps [of "mergeInto a b # rest'"] xs Cons
        by (simp add: smoothWith_Cons2 mergeInto_def)
    next
      case False
      then show ?thesis using less.hyps [of "b # rest'"] xs Cons
        by (simp add: smoothWith_Cons2)
    qed
  qed
qed

lemma foldl_visemeStep_append:
  "foldl (visemeStep ps) (pre @ init) is = pre @ foldl (visemeStep ps) init is"
  by (induction "is" arbitrary: init) (simp_all add: visemeStep_def)

lemma not_sandwiched_ends: "\<not> sandwiched ps 0" "\<not> sandwiched ps (length ps - Suc 0)"
  by (cases ps; simp add: sandwiched_def)+

lemma visemes_fold_ends:
  assumes "ps \<noteq> []"
  shows "\<exists>mid.
     foldl (visemeStep ps) init [0..<length ps] =
       init @ \<lparr>viseme = visemeOf (phoneme (hd ps)), vs_start = ph_start (hd ps),
          vs_end = ph_end (hd ps), vs_confidence = Some (orElse (ph_confidence (hd ps)) 0.5)\<rparr> # mid \<and>
     vs_end (last (foldl (visemeStep ps) init [0..<length ps])) = ph_end (last ps)"
proof -
  let ?n = "length ps"
  let ?seg = "\<lambda>i. \<lparr>viseme = visemeOf (phoneme (ps ! i)), vs_start = ph_start (ps ! i),
          vs_end = ph_end (ps ! i), vs_confidence = Some (orElse (ph_confidence (ps ! i)) 0.5)\<rparr>"
  have n: "0 < ?n" using assms by simp
  have up: "[0..<?n] = 0 # [1..<?n]" using n by (simp add: upt_conv_Cons)
  have first: "foldl (visemeStep ps) init [0..<?n] = init @ ?seg 0 # foldl (visemeStep ps) [] [1..<?n]"
    using foldl_visemeStep_append [of ps "init @ [?seg 0]" "[]" "[1..<?n]"]
    by (simp add: up visemeStep_def not_sandwiched_ends)
  have up2: "[0..<?n] = [0..<?n - 1] @ [?n - 1]"
    using n by (metis Suc_diff_1 upt_Suc_append zero_le)
  have lastv: "foldl (visemeStep ps) init [0..<?n] =
      foldl (visemeStep ps) init [0..<?n - 1] @ [?seg (?n - 1)]"
    by (subst up2) (simp add: visemeStep_def not_sandwiched_ends)
  have ends: "ps ! 0 = hd ps" "ps ! (?n - 1) = last ps"
    using assms by (simp_all add: hd_conv_nth last_conv_nth)
  have A: "\<exists>mid. foldl (visemeStep ps) init [0..<?n] =
       init @ \<lparr>viseme = visemeOf (phoneme (hd ps)), vs_start = ph_start (hd ps),
          vs_end = ph_end (hd ps), vs_confidence = Some (orElse (ph_confidence (hd ps)) 0.5)\<rparr> # mid"
    using first ends(1) by simp
  have B: "vs_end (last (foldl (visemeStep ps) init [0..<?n])) = ph_end (last ps)"
    using assms by (subst lastv) (simp add: last_conv_nth)
  show ?thesis using A B by blast
qed

lemma aligned_ends:
  assumes "ps \<noteq> []"
  shows "phonemesToVisemesEnhanced ps \<noteq> [] \<and>
         vs_start (hd (phonemesToVisemesEnhanced ps)) = min 0 (ph_start (hd ps)) \<and>
         vs_end (last (phonemesToVisemesEnhanced ps)) = ph_end (last ps)"
proof -
  let ?init = "if ps \<noteq> [] \<and> 0 < ph_start (hd ps)
             then [\<lparr>viseme = ''rest'', vs_start = 0, vs_end = ph_start (hd ps),
                    vs_confidence = Some 1\<rparr>]
             else []"
  let ?vis = "foldl (visemeStep ps) ?init [0..<length ps]"
  from visemes_fold_ends [OF assms, of ?init] obtain mid where
    f: "?vis = ?init @ \<lparr>viseme = visemeOf (phoneme (hd ps)), vs_start = ph_start (hd ps),
          vs_end = ph_end (hd ps), vs_confidence = Some (orElse (ph_confidence (hd ps)) 0.5)\<rparr> # mid"
    and l: "vs_end (last ?vis) = ph_end (last ps)" by blast
  have res: "phonemesToVisemesEnhanced ps = ?vis"
    using l by (simp add: phonemesToVisemesEnhanced_def Let_def)
  have "?vis \<noteq> []" using f by simp
  moreover have "vs_start (hd ?vis) = min 0 (ph_start (hd ps))"
    using assms by (subst f) (simp add: min_def)
  ultimately show ?thesis using res l by simp
qed

lemma generateFallbackVisemes_last:
  "generateFallbackVisemes str duration \<noteq> [] \<Longrightarrow>
   vs_end (last (generateFallbackVisemes str duration)) = toFixed3 duration"
  by (auto simp: generateFallbackVisemes_def Let_def setLastEnd_def split: if_splits)

lemma splitFrom_first: "\<exists>w ws. splitFrom cur cs = (cur @ w) # ws"
proof (induction cs arbitrary: cur)
  case Nil
  then show ?case by simp
next
  case (Cons c cs)
  show ?case
  proof (cases "isSpace c")
    case True
    then show ?thesis by simp
  next
    case False
    from Cons [of "cur @ [c]"] obtain w ws where "splitFrom (cur @ [c]) cs = ((cur @ [c]) @ w) # ws"
      by blast
    then have "splitFrom cur (c # cs) = (cur @ (c # w)) # ws" using False by simp
    then show ?thesis by blast
  qed
qed

lemma charStep_keeps_hd:
  "seq \<noteq> [] \<Longrightarrow> fst (charStep we cd (seq, t) c) \<noteq> [] \<and> hd (fst (charStep we cd (seq, t) c)) = hd seq"
  by (simp add: charStep_def Let_def)

lemma charStep_fold_keeps_hd:
  "seq \<noteq> [] \<Longrightarrow> fst (foldl (charStep we cd) (seq, t) cs) \<noteq> [] \<and>
     hd (fst (foldl (charStep we cd) (seq, t) cs)) = hd seq"
proof (induction cs arbitrary: seq t)
  case Nil
  then show ?case by simp
next
  case (Cons c cs)
  obtain seq' t' where st: "charStep we cd (seq, t) c = (seq', t')" by (cases "charStep we cd (seq, t) c")
  then have "seq' \<noteq> [] \<and> hd seq' = hd seq" using charStep_keeps_hd [OF Cons.prems, of we cd t c] by simp
  then show ?case using Cons.IH [of seq' t'] st by simp
qed

lemma fallbackWordStep_keeps_hd:
  "seq \<noteq> [] \<Longrightarrow> fst (fallbackWordStep words wd (seq, t) w) \<noteq> [] \<and>
     hd (fst (fallbackWordStep words wd (seq, t) w)) = hd seq"
proof -
  assume ne: "seq \<noteq> []"
  let ?r = "foldl (charStep (t + wd) (wd / real (max (length w) 1))) (seq, t) w"
  obtain seq' t' where r: "?r = (seq', t')" by (cases ?r)
  have "seq' \<noteq> [] \<and> hd seq' = hd seq"
    using charStep_fold_keeps_hd [OF ne, of "t + wd" "wd / real (max (length w) 1)" t w] r by simp
  then show ?thesis using r by (simp add: fallbackWordStep_def Let_def)
qed

lemma fallbackWordStep_fold_keeps_hd:
  "seq \<noteq> [] \<Longrightarrow> fst (foldl (fallbackWordStep words wd) (seq, t) ws) \<noteq> [] \<and>
     hd (fst (foldl (fallbackWordStep words wd) (seq, t) ws)) = hd seq"
proof (induction ws arbitrary: seq t)
  case Nil
  then show ?case by simp
next
  case (Cons w ws)
  obtain seq' t' where st: "fallbackWordStep words wd (seq, t) w = (seq', t')"
    by (cases "fallbackWordStep words wd (seq, t) w")
  then have "seq' \<noteq> [] \<and> hd seq' = hd seq"
    using fallbackWordStep_keeps_hd [OF Cons.prems, of words wd t w] by simp
  then show ?case using Cons.IH [of seq' t'] st by simp
qed

lemma fallbackWordStep_first:
  "fst (fallbackWordStep words wd ([], 0) (c # w)) \<noteq> [] \<and>
   vs_start (hd (fst (fallbackWordStep words wd ([], 0) (c # w)))) = 0"
proof -
  let ?we = "0 + wd" and ?cd = "wd / real (max (length (c # w)) 1)"
  obtain seq1 t1 where c1: "charStep ?we ?cd ([], 0) c = (seq1, t1)" by (cases "charStep ?we ?cd ([], 0) c")
  then have s1: "seq1 \<noteq> [] \<and> vs_start (hd seq1) = 0"
    by (auto simp: charStep_def Let_def toFixed3_zero)
  let ?r = "foldl (charStep ?we ?cd) (seq1, t1) w"
  obtain seq' t' where r: "?r = (seq', t')" by (cases ?r)
  have "seq' \<noteq> [] \<and> hd seq' = hd seq1"
    using charStep_fold_keeps_hd [of seq1 ?we ?cd t1 w] s1 r by simp
  then show ?thesis using r c1 s1 by (simp add: fallbackWordStep_def Let_def)
qed

lemma setLastEnd_hd:
  "tline \<noteq> [] \<Longrightarrow> setLastEnd tline e \<noteq> [] \<and> vs_start (hd (setLastEnd tline e)) = vs_start (hd tline)"
  by (cases tline rule: rev_cases; cases "butlast tline") (auto simp: setLastEnd_def hd_append)

lemma fallbackWordStep_fold_first:
  "fst (foldl (fallbackWordStep words wd) ([], 0) ((c # w) # ws)) \<noteq> [] \<and>
   vs_start (hd (fst (foldl (fallbackWordStep words wd) ([], 0) ((c # w) # ws)))) = 0"
proof -
  obtain seq1 t1 where f1: "fallbackWordStep words wd ([], 0) (c # w) = (seq1, t1)"
    by (cases "fallbackWordStep words wd ([], 0) (c # w)")
  have s1: "seq1 \<noteq> [] \<and> vs_start (hd seq1) = 0"
    using fallbackWordStep_first [of words wd c w] f1 by simp
  then have "fst (foldl (fallbackWordStep words wd) (seq1, t1) ws) \<noteq> [] \<and>
        hd (fst (foldl (fallbackWordStep words wd) (seq1, t1) ws)) = hd seq1"
    using fallbackWordStep_fold_keeps_hd [of seq1 words wd t1 ws] by simp
  then show ?thesis using f1 s1 by simp
qed

lemma generateFallbackVisemes_first:
  assumes "str \<noteq> []" "\<not> isSpace (hd str)"
  shows "generateFallbackVisemes str d \<noteq> [] \<and> vs_start (hd (generateFallbackVisemes str d)) = 0"
proof -
  obtain c cs where str: "str = c # cs" using assms(1) by (cases str) auto
  have nsp: "\<not> isSpace (toLowerChar c)" using assms(2) str by (simp add: isSpace_toLowerChar)
  have "splitWhitespace (toLowerCase str) = splitFrom [toLowerChar c] (map toLowerChar cs)"
    using nsp by (simp add: splitWhitespace_def toLowerCase_def str)
  then obtain w ws where words: "splitWhitespace (toLowerCase str) = (toLowerChar c # w) # ws"
    using splitFrom_first [of "[toLowerChar c]" "map toLowerChar cs"] by auto
  define wd where "wd = d / real (max (length ((toLowerChar c # w) # ws)) 1)"
  define vis where
    "vis = fst (foldl (fallbackWordStep ((toLowerChar c # w) # ws) wd) ([], 0)
                  ((toLowerChar c # w) # ws))"
  have v: "vis \<noteq> [] \<and> vs_start (hd vis) = 0"
    unfolding vis_def by (rule fallbackWordStep_fold_first)
  have "generateFallbackVisemes str d = setLastEnd vis (toFixed3 d)"
    unfolding generateFallbackVisemes_def Let_def words vis_def wd_def by (rule refl)
  then show ?thesis using setLastEnd_hd [of vis "toFixed3 d"] v by simp
qed

text \<open>
  Claim C2, as amended. On the fallback path a non-empty timeline of
  \<^verbatim>\<open>buildVisemeTimeline\<close> starts at 0 and its last end is forced to the audio duration
  rounded to three decimals, within half a millisecond of the audio duration. The
  enhanced server's \<^verbatim>\<open>generateFallbackVisemes\<close> forces the last end of a non-empty
  timeline to the same value, and its timeline starts at 0 when the text starts with a
  character that is not whitespace. On the aligned path (smoothing, then
  \<^verbatim>\<open>phonemesToVisemesEnhanced\<close>) the timeline of a non-empty phoneme list whose first
  start is not negative starts at 0, and its last end is the end of the last phoneme: it
  is not clamped to the audio duration.
\<close>

theorem timeline_end_points:
  "(visemes \<noteq> [] \<longrightarrow>
      buildVisemeTimeline rnd visemes duration \<noteq> [] \<and>
      vs_start (hd (buildVisemeTimeline rnd visemes duration)) = 0 \<and>
      vs_end (last (buildVisemeTimeline rnd visemes duration)) = toFixed3 duration) \<and>
   (generateFallbackVisemes str duration \<noteq> [] \<longrightarrow>
      vs_end (last (generateFallbackVisemes str duration)) = toFixed3 duration) \<and>
   (str \<noteq> [] \<and> \<not> isSpace (hd str) \<longrightarrow>
      generateFallbackVisemes str duration \<noteq> [] \<and>
      vs_start (hd (generateFallbackVisemes str duration)) = 0) \<and>
   \<bar>toFixed3 duration - duration\<bar> \<le> 1 / 2000 \<and>
   (phones \<noteq> [] \<and> 0 \<le> ph_start (hd phones) \<longrightarrow>
      phonemesToVisemesEnhanced (smoothPhonemeTimeline phones) \<noteq> [] \<and>
      vs_start (hd (phonemesToVisemesEnhanced (smoothPhonemeTimeline phones))) = 0 \<and>
      vs_end (last (phonemesToVisemesEnhanced (smoothPhonemeTimeline phones))) =
        ph_end (last phones))"
proof -
  have a: "buildVisemeTimeline rnd visemes duration \<noteq> [] \<and>
      vs_start (hd (buildVisemeTimeline rnd visemes duration)) = 0 \<and>
      vs_end (last (buildVisemeTimeline rnd visemes duration)) = toFixed3 duration"
    if "visemes \<noteq> []"
    using that pinned_ends [OF that]
    by (simp add: buildVisemeTimeline_def Let_def toFixed3_zero)
  have b: "phonemesToVisemesEnhanced (smoothPhonemeTimeline phones) \<noteq> [] \<and>
      vs_start (hd (phonemesToVisemesEnhanced (smoothPhonemeTimeline phones))) = 0 \<and>
      vs_end (last (phonemesToVisemesEnhanced (smoothPhonemeTimeline phones))) =
        ph_end (last phones)"
    if ne: "phones \<noteq> []" and st: "0 \<le> ph_start (hd phones)"
  proof -
    let ?sm = "smoothPhonemeTimeline phones"
    obtain p ps where phones: "phones = p # ps" using ne by (cases phones) auto
    have sm: "?sm \<noteq> []" "ph_end (last ?sm) = ph_end (last phones)"
      using smoothWith_last [OF ne] by (simp_all add: smoothPhonemeTimeline_def)
    have "ph_start (hd ?sm) = ph_start (hd phones)"
      using smoothWith_hd [of "3 / 100" p ps] phones by (simp add: smoothPhonemeTimeline_def)
    then show ?thesis using aligned_ends [OF sm(1)] sm(2) st by simp
  qed
  have c: "generateFallbackVisemes str duration \<noteq> [] \<and>
      vs_start (hd (generateFallbackVisemes str duration)) = 0"
    if "str \<noteq> []" "\<not> isSpace (hd str)"
    using that by (rule generateFallbackVisemes_first)
  show ?thesis
    using a b c generateFallbackVisemes_last [of str duration] toFixed3_near [of duration]
    by blast
qed

theorem timeline_end_points_witness:
  "buildVisemeTimeline (\<lambda>i. 1 / 2) [''A'', ''E'', ''M''] 1 \<noteq> [] \<and>
   vs_start (hd (buildVisemeTimeline (\<lambda>i. 1 / 2) [''A'', ''E'', ''M''] 1)) = 0 \<and>
   vs_end (last (buildVisemeTimeline (\<lambda>i. 1 / 2) [''A'', ''E'', ''M''] 1)) = 1 \<and>
   generateFallbackVisemes ''hello'' 1 \<noteq> [] \<and>
   vs_start (hd (generateFallbackVisemes ''hello'' 1)) = 0 \<and>
   vs_end (last (generateFallbackVisemes ''hello'' 1)) = 1 \<and>
   phonemesToVisemesEnhanced (smoothPhonemeTimeline
     [\<lparr>phoneme = ''HH'', ph_start = 0.05, ph_end = 0.1, ph_confidence = 1\<rparr>,
      \<lparr>phoneme = ''AY'', ph_start = 0.1, ph_end = 0.3, ph_confidence = 1\<rparr>]) =
     [\<lparr>viseme = ''rest'', vs_start = 0, vs_end = 0.05, vs_confidence = Some 1\<rparr>,
      \<lparr>viseme = ''A'', vs_start = 0.05, vs_end = 0.1, vs_confidence = Some 1\<rparr>,
      \<lparr>viseme = ''A'', vs_start = 0.1, vs_end = 0.3, vs_confidence = Some 1\<rparr>]"
proof -
  let ?ph = "[\<lparr>phoneme = ''HH'', ph_start = 0.05, ph_end = 0.1, ph_confidence = 1\<rparr>,
      \<lparr>phoneme = ''AY'', ph_start = 0.1, ph_end = 0.3, ph_confidence = 1\<rparr>]"
  have r: "toFixed3 1 = 1" by (simp add: toFixed3_def)
  have h: "\<not> isSpace (hd ''hello'')" by (simp add: isSpace_def)
  have al: "phonemesToVisemesEnhanced (smoothPhonemeTimeline ?ph) =
     [\<lparr>viseme = ''rest'', vs_start = 0, vs_end = 0.05, vs_confidence = Some 1\<rparr>,
      \<lparr>viseme = ''A'', vs_start = 0.05, vs_end = 0.1, vs_confidence = Some 1\<rparr>,
      \<lparr>viseme = ''A'', vs_start = 0.1, vs_end = 0.3, vs_confidence = Some 1\<rparr>]"
    by code_simp
  show ?thesis
    using timeline_end_points [of "[''A'', ''E'', ''M'']" "\<lambda>i. 1 / 2" 1 "''hello''" ?ph] r h al
    by simp
qed

text \<open>
  One aligned phoneme of 0.3 s in 1 s of audio: the chat handler answers with an aligned
  timeline that ends at 0.3, not at the audio duration. On the fallback path a duration
  of a third of a second is pinned to 0.333.
\<close>

theorem aligned_end_counterexample:
  "chatTurn ''ah''
     \<lparr>audioAvailable = True, probedDuration = 1, alignTmpWritten = True,
      aligner = \<lparr>wavExists = True, settlesAfterMs = Some 300,
        outcome = Response True (Body (Some
          [\<lparr>gw_case = Some ''success'', gw_alignedWord = Some ''ah'',
            gw_phones = Some [\<lparr>gp_phone = Some ''aa1'', gp_start = None,
              gp_duration = Some (3 / 10), gp_score = None\<rparr>],
            gw_start = Some 0, gw_end = Some (3 / 10), gw_word = Some ''ah''\<rparr>]))\<rparr>\<rparr> =
     ([\<lparr>viseme = ''A'', vs_start = 0, vs_end = 3 / 10, vs_confidence = Some 1\<rparr>], ''gentle'') \<and>
   chatDuration
     \<lparr>audioAvailable = True, probedDuration = 1, alignTmpWritten = True,
      aligner = \<lparr>wavExists = True, settlesAfterMs = Some 300,
        outcome = Response True (Body (Some
          [\<lparr>gw_case = Some ''success'', gw_alignedWord = Some ''ah'',
            gw_phones = Some [\<lparr>gp_phone = Some ''aa1'', gp_start = None,
              gp_duration = Some (3 / 10), gp_score = None\<rparr>],
            gw_start = Some 0, gw_end = Some (3 / 10), gw_word = Some ''ah''\<rparr>]))\<rparr>\<rparr> = 1 \<and>
   (3 / 10 :: real) \<noteq> 1 \<and>
   vs_end (last (buildVisemeTimeline (\<lambda>i. 0) [''A''] (1 / 3))) = 333 / 1000 \<and>
   (333 / 1000 :: real) \<noteq> 1 / 3"
  by code_simp

section \<open>The forced-alignment client\<close>












section \<open>The chat handler\<close>





text \<open>
  The patched server's handler has no guard against an empty timeline: for the empty
  reply its viseme sequence is empty, and so is the timeline built from it.
\<close>

lemma buildVisemeTimeline_empty:
  "textToVisemeSequence [] = Some [] \<and> buildVisemeTimeline rnd [] duration = []"
  by (simp add: textToVisemeSequence_def visemeScan.simps buildVisemeTimeline_def)



end
